theory Spec2Isabelle
  imports Main "HOL-Library.Word"
begin

section \<open>Bytes\<close>

text \<open>
  Python \<^verbatim>\<open>bytes\<close> objects are lists of 8-bit words. The only byte the
  program gives a meaning to is the line terminator \<^verbatim>\<open>b"\n"\<close>, value 10.
\<close>

type_synonym byte = "8 word"
type_synonym bytes = "byte list"

abbreviation newline :: byte where
  "newline \<equiv> 10"

text \<open>
  \<^verbatim>\<open>data.find(b"\n")\<close>: the index of the first occurrence, or \<open>-1\<close> when there
  is none.
\<close>

definition bytes_find :: "bytes \<Rightarrow> byte \<Rightarrow> int" where
  "bytes_find data b =
     (if b \<in> set data then int (length (takeWhile (\<lambda>x. x \<noteq> b) data)) else - 1)"

section \<open>io.BytesIO\<close>

text \<open>
  \<^verbatim>\<open>LineBuf\<close> keeps its bytes in an \<^verbatim>\<open>io.BytesIO\<close>. Such a stream is a byte
  string together with a stream position. \<^verbatim>\<open>io.BytesIO()\<close> and
  \<^verbatim>\<open>io.BytesIO(initial)\<close> both start at position 0; \<^verbatim>\<open>write(data)\<close> stores
  \<^verbatim>\<open>data\<close> at the position, replacing what was there and growing the string when
  it runs past the end, and advances the position by \<^verbatim>\<open>len(data)\<close>;
  \<^verbatim>\<open>getvalue()\<close> returns the whole string whatever the position is. A position
  beyond the end would be filled with zero bytes by a write; the program never
  seeks, so that case does not arise (\<open>BytesIO_write_pos_le\<close> below).
\<close>

record BytesIO =
  content :: bytes
  pos :: nat

definition BytesIO_init :: "bytes \<Rightarrow> BytesIO" where
  "BytesIO_init initial_bytes = \<lparr>content = initial_bytes, pos = 0\<rparr>"

definition BytesIO_write :: "BytesIO \<Rightarrow> bytes \<Rightarrow> BytesIO" where
  "BytesIO_write s data =
     (let padded = content s @ replicate (pos s - length (content s)) 0
      in \<lparr>content = take (pos s) padded @ data @ drop (pos s + length data) padded,
          pos = pos s + length data\<rparr>)"

definition BytesIO_getvalue :: "BytesIO \<Rightarrow> bytes" where
  "BytesIO_getvalue s = content s"

section \<open>LineBuf\<close>

record LineBuf =
  LineBuf_buf :: BytesIO

definition LineBuf_init :: LineBuf where
  "LineBuf_init = \<lparr>LineBuf_buf = BytesIO_init []\<rparr>"

definition LineBuf_write :: "LineBuf \<Rightarrow> bytes \<Rightarrow> LineBuf" where
  "LineBuf_write self data = self\<lparr>LineBuf_buf := BytesIO_write (LineBuf_buf self) data\<rparr>"

text \<open>
  \<^verbatim>\<open>readline\<close> returns \<^verbatim>\<open>None\<close> and leaves the stream alone when the buffered
  bytes hold no newline; otherwise it returns the bytes up to and including the
  first newline and replaces the stream by a new one holding the rest.
\<close>

definition LineBuf_readline :: "LineBuf \<Rightarrow> bytes option \<times> LineBuf" where
  "LineBuf_readline self =
     (let data = BytesIO_getvalue (LineBuf_buf self);
          p = bytes_find data newline
      in if p = - 1 then (None, self)
         else (Some (take (nat (p + 1)) data),
               self\<lparr>LineBuf_buf := BytesIO_init (drop (nat (p + 1)) data)\<rparr>))"


section \<open>Errors, effects and the environment of one loop iteration\<close>

text \<open>
  The exceptions that occur in the program: \<^verbatim>\<open>OSError\<close> from a client socket,
  \<^verbatim>\<open>AttributeError\<close> from calling a method of \<^verbatim>\<open>None\<close>, and \<^verbatim>\<open>KeyError\<close>
  from deleting a dictionary key that is not there.
\<close>

datatype error = OSError | AttributeError | KeyError

text \<open>
  What the program does to the outside world is recorded as a list of events, in
  the order of the calls: text written to \<^verbatim>\<open>sys.stdout\<close>, a \<^verbatim>\<open>send\<close> called on
  the client socket with a given descriptor, and a \<^verbatim>\<open>write\<close> called on the
  serial device. A Python \<^verbatim>\<open>str\<close> is a list of code points.
\<close>

type_synonym str = "nat list"

datatype event =
    is_ConsoleWrite: ConsoleWrite str
  | is_SockSend: SockSend int bytes
  | is_SerialWrite: SerialWrite bytes

text \<open>
  What the outside world does in one iteration of the loop: the descriptors
  \<^verbatim>\<open>select\<close> reports ready among those it is given, the connection that
  \<^verbatim>\<open>accept\<close> returns, the bytes the serial device's \<^verbatim>\<open>read\<close> returns, and what a
  \<^verbatim>\<open>recv\<close> and a \<^verbatim>\<open>send\<close> on the socket with a given descriptor do. The serial
  device, the listening socket and \<^verbatim>\<open>select\<close> are taken to return normally.
\<close>

datatype recv_outcome = Pending bytes | RecvOSError

datatype send_outcome = Sent nat | SendOSError

record env =
  select_ready :: "int list \<Rightarrow> int list"
  accept_fd :: int
  accept_addr :: string
  dev_read :: bytes
  sock_recv :: "int \<Rightarrow> recv_outcome"
  sock_send :: "int \<Rightarrow> bytes \<Rightarrow> send_outcome"

section \<open>Sockets\<close>

text \<open>
  A socket object is its descriptor and whether \<^verbatim>\<open>close\<close> has been called on it.
  A closed socket reports descriptor \<open>-1\<close> and raises \<^verbatim>\<open>OSError\<close> on every
  transfer. \<^verbatim>\<open>recv(bufsize)\<close> returns at most \<^verbatim>\<open>bufsize\<close> of the pending bytes;
  no pending bytes on a socket that is ready means the peer has closed.
\<close>

record socket =
  sock_fd :: int
  sock_closed :: bool

definition socket_fileno :: "socket \<Rightarrow> int" where
  "socket_fileno s = (if sock_closed s then - 1 else sock_fd s)"

definition socket_recv :: "env \<Rightarrow> socket \<Rightarrow> nat \<Rightarrow> error + bytes" where
  "socket_recv e s bufsize =
     (if sock_closed s then Inl OSError
      else case sock_recv e (sock_fd s) of
             RecvOSError \<Rightarrow> Inl OSError
           | Pending bs \<Rightarrow> Inr (take bufsize bs))"

definition socket_send :: "env \<Rightarrow> socket \<Rightarrow> bytes \<Rightarrow> error + nat" where
  "socket_send e s data =
     (if sock_closed s then Inl OSError
      else case sock_send e (sock_fd s) data of
             SendOSError \<Rightarrow> Inl OSError
           | Sent n \<Rightarrow> Inr n)"

definition socket_close :: "socket \<Rightarrow> socket" where
  "socket_close s = s\<lparr>sock_closed := True\<rparr>"

section \<open>Client\<close>

record Client =
  Client_sock :: socket
  Client_addr :: string
  Client_buf :: LineBuf

definition Client_init :: "socket \<Rightarrow> string \<Rightarrow> Client" where
  "Client_init sock addr = \<lparr>Client_sock = sock, Client_addr = addr, Client_buf = LineBuf_init\<rparr>"

text \<open>
  \<^verbatim>\<open>read\<close>: an \<^verbatim>\<open>OSError\<close> of \<^verbatim>\<open>recv\<close> and an empty result both give
  \<^verbatim>\<open>None\<close>, with nothing written to the buffer; any other exception would
  propagate.
\<close>

definition Client_read :: "env \<Rightarrow> Client \<Rightarrow> error + (bytes option \<times> Client)" where
  "Client_read e self =
     (case socket_recv e (Client_sock self) 1024 of
        Inl err \<Rightarrow> (if err = OSError then Inr (None, self) else Inl err)
      | Inr data \<Rightarrow>
          (if data = [] then Inr (None, self)
           else Inr (Some data, self\<lparr>Client_buf := LineBuf_write (Client_buf self) data\<rparr>)))"

definition Client_readline :: "Client \<Rightarrow> bytes option \<times> Client" where
  "Client_readline self =
     (case LineBuf_readline (Client_buf self) of
        (line, b) \<Rightarrow> (line, self\<lparr>Client_buf := b\<rparr>))"

definition Client_fileno :: "Client \<Rightarrow> int" where
  "Client_fileno self = socket_fileno (Client_sock self)"

text \<open>
  \<^verbatim>\<open>write\<close>: one \<^verbatim>\<open>send\<close> of the whole data; its result is ignored and an
  \<^verbatim>\<open>OSError\<close> is passed over.
\<close>

definition Client_write :: "env \<Rightarrow> Client \<Rightarrow> bytes \<Rightarrow> error + event list" where
  "Client_write e self data =
     (case socket_send e (Client_sock self) data of
        Inl err \<Rightarrow>
          (if err = OSError then Inr [SockSend (sock_fd (Client_sock self)) data] else Inl err)
      | Inr n \<Rightarrow> Inr [SockSend (sock_fd (Client_sock self)) data])"

definition Client_close :: "Client \<Rightarrow> Client" where
  "Client_close self = self\<lparr>Client_sock := socket_close (Client_sock self)\<rparr>"

section \<open>Serial\<close>

text \<open>The device is identified by its descriptor; what it reads comes from the environment.\<close>

record Serial =
  Serial_dev :: int
  Serial_buf :: LineBuf

definition Serial_init :: "int \<Rightarrow> Serial" where
  "Serial_init dev = \<lparr>Serial_dev = dev, Serial_buf = LineBuf_init\<rparr>"

definition Serial_read :: "env \<Rightarrow> Serial \<Rightarrow> bytes option \<times> Serial" where
  "Serial_read e self =
     (let data = dev_read e
      in if data = [] then (None, self)
         else (Some data, self\<lparr>Serial_buf := LineBuf_write (Serial_buf self) data\<rparr>))"

definition Serial_readline :: "Serial \<Rightarrow> bytes option \<times> Serial" where
  "Serial_readline self =
     (case LineBuf_readline (Serial_buf self) of
        (line, b) \<Rightarrow> (line, self\<lparr>Serial_buf := b\<rparr>))"

definition Serial_write :: "Serial \<Rightarrow> bytes \<Rightarrow> event list" where
  "Serial_write self data = [SerialWrite data]"

definition Serial_fileno :: "Serial \<Rightarrow> int" where
  "Serial_fileno self = Serial_dev self"

section \<open>The client dictionary\<close>

text \<open>
  \<^verbatim>\<open>clients\<close> is a Python dictionary from descriptors to \<^verbatim>\<open>Client\<close> objects. It
  is iterated, so it is an association list in insertion order: an assignment
  replaces the value of a key that is present in place and appends a new key,
  \<^verbatim>\<open>del\<close> raises \<^verbatim>\<open>KeyError\<close> for a key that is not present.
\<close>

type_synonym clients = "(int \<times> Client) list"

fun dict_set :: "clients \<Rightarrow> int \<Rightarrow> Client \<Rightarrow> clients" where
  "dict_set [] k v = [(k, v)]"
| "dict_set ((k', v') # d) k v = (if k' = k then (k, v) # d else (k', v') # dict_set d k v)"

definition dict_del :: "clients \<Rightarrow> int \<Rightarrow> error + clients" where
  "dict_del d k =
     (if k \<in> set (map fst d) then Inr (filter (\<lambda>kv. fst kv \<noteq> k) d) else Inl KeyError)"

definition dict_values :: "clients \<Rightarrow> Client list" where
  "dict_values d = map snd d"

definition dict_keys :: "clients \<Rightarrow> int list" where
  "dict_keys d = map fst d"

section \<open>process_serial\<close>

text \<open>The loop \<^verbatim>\<open>for c in clients.values(): c.write(data)\<close>.\<close>

fun write_each :: "env \<Rightarrow> Client list \<Rightarrow> bytes \<Rightarrow> error + event list" where
  "write_each e [] data = Inr []"
| "write_each e (c # cs) data =
     (case Client_write e c data of
        Inl err \<Rightarrow> Inl err
      | Inr evs \<Rightarrow>
          (case write_each e cs data of
             Inl err \<Rightarrow> Inl err
           | Inr evs' \<Rightarrow> Inr (evs @ evs')))"

text \<open>
  \<^verbatim>\<open>decode\<close> stands for \<^verbatim>\<open>bytes.decode("utf-8", "backslashreplace")\<close>, which is
  defined on every byte string. When \<^verbatim>\<open>ser.read()\<close> is \<^verbatim>\<open>None\<close> the call
  \<^verbatim>\<open>data.decode\<close> raises \<^verbatim>\<open>AttributeError\<close>.
\<close>

definition process_serial ::
  "(bytes \<Rightarrow> str) \<Rightarrow> env \<Rightarrow> clients \<Rightarrow> Serial \<Rightarrow> error + (Serial \<times> event list)" where
  "process_serial decode e clients ser =
     (case Serial_read e ser of
        (None, ser1) \<Rightarrow> Inl AttributeError
      | (Some data, ser1) \<Rightarrow>
          (case write_each e (dict_values clients) data of
             Inl err \<Rightarrow> Inl err
           | Inr evs \<Rightarrow> Inr (ser1, ConsoleWrite (decode data) # evs)))"

section \<open>process_clients\<close>

text \<open>
  The loop \<^verbatim>\<open>while line := c.readline(): ser.write(line)\<close>. It stops when
  \<^verbatim>\<open>readline\<close> returns \<^verbatim>\<open>None\<close> or an empty byte string.
\<close>

function drain :: "Client \<Rightarrow> Serial \<Rightarrow> Client \<times> event list" where
  "drain c ser =
     (case Client_readline c of
        (None, c1) \<Rightarrow> (c1, [])
      | (Some line, c1) \<Rightarrow>
          (if line = [] then (c1, [])
           else (case drain c1 ser of (c2, evs) \<Rightarrow> (c2, Serial_write ser line @ evs))))"
  by pat_completeness auto
termination
  by (relation "measure (\<lambda>(c, ser). length (content (LineBuf_buf (Client_buf c))))")
     (auto simp: Client_readline_def LineBuf_readline_def Let_def BytesIO_init_def
        BytesIO_getvalue_def bytes_find_def split: if_splits prod.splits)

declare drain.simps [simp del]

text \<open>
  The objects of the argument list are changed in place. The result holds the
  objects after the call, in the order of the argument, the list
  \<^verbatim>\<open>remove_clients\<close>, and the events. \<^verbatim>\<open>not data\<close> holds for \<^verbatim>\<open>None\<close> and for
  an empty byte string.
\<close>

fun process_clients ::
  "env \<Rightarrow> Client list \<Rightarrow> Serial \<Rightarrow> error + (Client list \<times> Client list \<times> event list)" where
  "process_clients e [] ser = Inr ([], [], [])"
| "process_clients e (c # cs) ser =
     (case Client_read e c of
        Inl err \<Rightarrow> Inl err
      | Inr (data, c1) \<Rightarrow>
          (if data = None \<or> data = Some [] then
             (case process_clients e cs ser of
                Inl err \<Rightarrow> Inl err
              | Inr (cs', remove_clients, evs) \<Rightarrow> Inr (c1 # cs', c1 # remove_clients, evs))
           else
             (case drain c1 ser of
                (c2, evs1) \<Rightarrow>
                  (case process_clients e cs ser of
                     Inl err \<Rightarrow> Inl err
                   | Inr (cs', remove_clients, evs) \<Rightarrow>
                       Inr (c2 # cs', remove_clients, evs1 @ evs)))))"

section \<open>run\<close>

text \<open>
  The objects that \<^verbatim>\<open>process_clients\<close> changed are the values of the dictionary
  under the ready descriptors, in dictionary order: \<open>write_back\<close> puts the
  changed objects where the comprehension \<^verbatim>\<open>ready_clients\<close> took them from.
\<close>

fun write_back :: "int list \<Rightarrow> clients \<Rightarrow> Client list \<Rightarrow> clients" where
  "write_back r [] cs = []"
| "write_back r ((fd, c) # items) cs =
     (if fd \<in> set r then
        (case cs of
           [] \<Rightarrow> (fd, c) # write_back r items []
         | c' # cs' \<Rightarrow> (fd, c') # write_back r items cs')
      else (fd, c) # write_back r items cs)"

text \<open>The loop \<^verbatim>\<open>for c in remove_clients: del clients[c.fileno()]\<close>.\<close>

fun remove_each :: "Client list \<Rightarrow> clients \<Rightarrow> error + clients" where
  "remove_each [] clients = Inr clients"
| "remove_each (c # cs) clients =
     (case dict_del clients (Client_fileno c) of
        Inl err \<Rightarrow> Inl err
      | Inr clients' \<Rightarrow> remove_each cs clients')"

text \<open>
  The start of an iteration: the descriptors handed to \<^verbatim>\<open>select\<close> are those
  of the listening socket, of the serial device and of every client in the
  dictionary; \<open>select_fds\<close> is the list \<^verbatim>\<open>r\<close> that comes back.
\<close>

type_synonym state = "clients \<times> Serial"

definition select_fds :: "int \<Rightarrow> env \<Rightarrow> state \<Rightarrow> int list" where
  "select_fds serversocket e st =
     (let fds = [serversocket, Serial_fileno (snd st)]
                @ map (\<lambda>c. socket_fileno (Client_sock c)) (dict_values (fst st))
      in select_ready e fds)"

text \<open>
  When the listening socket is ready, one connection is accepted and stored
  under the descriptor of its socket.
\<close>

definition accept_client :: "int \<Rightarrow> env \<Rightarrow> int list \<Rightarrow> clients \<Rightarrow> clients" where
  "accept_client serversocket e r clients =
     (if serversocket \<in> set r then
        (let sock = \<lparr>sock_fd = accept_fd e, sock_closed = False\<rparr>;
             addr = accept_addr e
         in dict_set clients (socket_fileno sock) (Client_init sock addr))
      else clients)"

text \<open>
  One iteration of \<^verbatim>\<open>while True\<close> in \<^verbatim>\<open>run\<close>. The state between iterations is
  the dictionary and the \<^verbatim>\<open>Serial\<close> object; \<^verbatim>\<open>serversocket\<close> is the descriptor
  of the listening socket.
\<close>

definition run_iter ::
  "(bytes \<Rightarrow> str) \<Rightarrow> int \<Rightarrow> env \<Rightarrow> state \<Rightarrow> error + (state \<times> event list)" where
  "run_iter decode serversocket e st =
     (let ser = snd st;
          r = select_fds serversocket e st;
          clients1 = accept_client serversocket e r (fst st)
      in case (if Serial_fileno ser \<in> set r then process_serial decode e clients1 ser
               else Inr (ser, [])) of
           Inl err \<Rightarrow> Inl err
         | Inr (ser1, evs1) \<Rightarrow>
             (let ready_clients = map snd (filter (\<lambda>kv. fst kv \<in> set r) clients1)
              in case process_clients e ready_clients ser1 of
                   Inl err \<Rightarrow> Inl err
                 | Inr (changed, remove_clients, evs2) \<Rightarrow>
                     (case remove_each remove_clients (write_back r clients1 changed) of
                        Inl err \<Rightarrow> Inl err
                      | Inr clients2 \<Rightarrow> Inr ((clients2, ser1), evs1 @ evs2))))"

text \<open>
  \<^verbatim>\<open>run\<close> never returns: it ends with an exception or not at all. \<open>run_from\<close>
  gives the state after the iterations whose environments are listed, with the
  events so far, or the exception that ended the loop among them; \<open>run\<close> starts
  with the empty dictionary.
\<close>

fun run_from ::
  "(bytes \<Rightarrow> str) \<Rightarrow> int \<Rightarrow> env list \<Rightarrow> state \<Rightarrow> error + (state \<times> event list)" where
  "run_from decode serversocket [] st = Inr (st, [])"
| "run_from decode serversocket (e # es) st =
     (case run_iter decode serversocket e st of
        Inl err \<Rightarrow> Inl err
      | Inr (st1, evs1) \<Rightarrow>
          (case run_from decode serversocket es st1 of
             Inl err \<Rightarrow> Inl err
           | Inr (st2, evs2) \<Rightarrow> Inr (st2, evs1 @ evs2)))"

definition run ::
  "(bytes \<Rightarrow> str) \<Rightarrow> Serial \<Rightarrow> int \<Rightarrow> env list \<Rightarrow> error + (state \<times> event list)" where
  "run decode ser serversocket es = run_from decode serversocket es ([], ser)"

section \<open>Conditions on states and environments\<close>

text \<open>
  The dictionary as \<^verbatim>\<open>run\<close> keeps it: no key twice, and every client stored
  under the descriptor of its own socket, which has not been closed.
\<close>

definition registry_ok :: "clients \<Rightarrow> bool" where
  "registry_ok d \<longleftrightarrow>
     distinct (map fst d) \<and>
     list_all (\<lambda>kv. \<not> sock_closed (Client_sock (snd kv)) \<and> sock_fd (Client_sock (snd kv)) = fst kv) d"

text \<open>
  The peer behind a descriptor is gone for this iteration: \<^verbatim>\<open>recv\<close> raises
  \<^verbatim>\<open>OSError\<close> or has no bytes to return.
\<close>

definition disconnected :: "env \<Rightarrow> int \<Rightarrow> bool" where
  "disconnected e fd = (case sock_recv e fd of RecvOSError \<Rightarrow> True | Pending bs \<Rightarrow> bs = [])"

text \<open>No buffered newline: the client's buffer holds at most an unfinished line.\<close>

definition no_line :: "Client \<Rightarrow> bool" where
  "no_line c \<longleftrightarrow> newline \<notin> set (content (LineBuf_buf (Client_buf c)))"

section \<open>Example values\<close>

text \<open>
  Concrete environments and clients on which the theorems below are instantiated.
  In \<open>ex_env\<close> the listening socket is never ready, the connection that would be
  accepted has descriptor 7, and every \<^verbatim>\<open>send\<close> on descriptor 5 raises
  \<^verbatim>\<open>OSError\<close>.
\<close>

definition ex_env :: "int list \<Rightarrow> bytes \<Rightarrow> (int \<Rightarrow> recv_outcome) \<Rightarrow> env" where
  "ex_env r d rc =
     \<lparr>select_ready = (\<lambda>fds. r), accept_fd = 7, accept_addr = ''peer'', dev_read = d,
      sock_recv = rc,
      sock_send = (\<lambda>fd data. if fd = 5 then SendOSError else Sent (length data))\<rparr>"

definition ex_client :: "int \<Rightarrow> bytes \<Rightarrow> nat \<Rightarrow> Client" where
  "ex_client fd bs p =
     \<lparr>Client_sock = \<lparr>sock_fd = fd, sock_closed = False\<rparr>, Client_addr = ''peer'',
      Client_buf = \<lparr>LineBuf_buf = \<lparr>content = bs, pos = p\<rparr>\<rparr>\<rparr>"

section \<open>Properties of BytesIO and LineBuf\<close>


lemma BytesIO_write_pos_le:
  "pos s \<le> length (content s) \<Longrightarrow> pos (BytesIO_write s data) \<le> length (content (BytesIO_write s data))"
  by (simp add: BytesIO_write_def Let_def)



lemma bytes_find_absent: "b \<notin> set data \<Longrightarrow> bytes_find data b = - 1"
  by (simp add: bytes_find_def)

lemma bytes_find_first:
  "b \<notin> set body \<Longrightarrow> bytes_find (body @ b # rest) b = int (length body)"
proof -
  assume nb: "b \<notin> set body"
  have "takeWhile (\<lambda>x. x \<noteq> b) (body @ b # rest) = body @ takeWhile (\<lambda>x. x \<noteq> b) (b # rest)"
    by (rule takeWhile_append2) (use nb in auto)
  then show ?thesis by (simp add: bytes_find_def)
qed

lemma LineBuf_readline_None:
  "newline \<notin> set (content (LineBuf_buf lb)) \<Longrightarrow> LineBuf_readline lb = (None, lb)"
  by (simp add: LineBuf_readline_def BytesIO_getvalue_def bytes_find_absent)

lemma LineBuf_readline_Some:
  "content (LineBuf_buf lb) = body @ newline # rest \<Longrightarrow> newline \<notin> set body \<Longrightarrow>
   LineBuf_readline lb = (Some (body @ [newline]), lb\<lparr>LineBuf_buf := BytesIO_init rest\<rparr>)"
  by (simp add: LineBuf_readline_def BytesIO_getvalue_def bytes_find_first Let_def nat_add_distrib)


text \<open>
  The stream that \<^verbatim>\<open>readline\<close> creates for the rest starts at position 0. A
  write that follows therefore replaces the kept bytes instead of extending
  them: after \<^verbatim>\<open>b"a\nbc"\<close> has been written and the line \<^verbatim>\<open>b"a\n"\<close> taken,
  writing \<^verbatim>\<open>b"d\n"\<close> gives the line \<^verbatim>\<open>b"d\n"\<close>, and \<^verbatim>\<open>b"bc"\<close> is lost.
  The properties below that span several writes are therefore stated for buffers
  whose position is known.
\<close>

lemma write_after_readline_overwrites:
  "LineBuf_readline (LineBuf_write LineBuf_init [97, 10, 98, 99])
     = (Some [97, 10], \<lparr>LineBuf_buf = \<lparr>content = [98, 99], pos = 0\<rparr>\<rparr>)
   \<and> LineBuf_readline (LineBuf_write \<lparr>LineBuf_buf = \<lparr>content = [98, 99], pos = 0\<rparr>\<rparr> [100, 10])
     = (Some [100, 10], \<lparr>LineBuf_buf = \<lparr>content = [], pos = 0\<rparr>\<rparr>)"
  by (simp add: LineBuf_readline_def LineBuf_write_def LineBuf_init_def BytesIO_write_def
      BytesIO_init_def BytesIO_getvalue_def bytes_find_def Let_def)

section \<open>Properties of Client and Serial\<close>

lemma socket_recv_error: "socket_recv e s n = Inl err \<Longrightarrow> err = OSError"
  by (auto simp: socket_recv_def split: if_splits recv_outcome.splits)

lemma socket_send_error: "socket_send e s data = Inl err \<Longrightarrow> err = OSError"
  by (auto simp: socket_send_def split: if_splits send_outcome.splits)

lemma Client_write_total:
  "Client_write e c data = Inr [SockSend (sock_fd (Client_sock c)) data]"
  by (auto simp: Client_write_def dest: socket_send_error split: sum.splits)

lemma write_each_total:
  "write_each e cs data = Inr (map (\<lambda>c. SockSend (sock_fd (Client_sock c)) data) cs)"
  by (induction cs) (simp_all add: Client_write_total)

lemma Client_read_disconnected:
  "disconnected e (sock_fd (Client_sock c)) \<Longrightarrow> Client_read e c = Inr (None, c)"
  by (auto simp: Client_read_def disconnected_def socket_recv_def
      split: recv_outcome.splits sum.splits if_splits)

lemma Client_read_closed:
  "sock_closed (Client_sock c) \<Longrightarrow> Client_read e c = Inr (None, c)"
  by (simp add: Client_read_def socket_recv_def)

lemma Client_read_data:
  "\<not> sock_closed (Client_sock c) \<Longrightarrow> \<not> disconnected e (sock_fd (Client_sock c)) \<Longrightarrow>
   \<exists>d. d \<noteq> [] \<and> socket_recv e (Client_sock c) 1024 = Inr d \<and>
     Client_read e c = Inr (Some d, c\<lparr>Client_buf := LineBuf_write (Client_buf c) d\<rparr>)"
  by (auto simp: Client_read_def disconnected_def socket_recv_def
      split: recv_outcome.splits)

lemma Client_read_cases:
  "Client_read e c = Inr (None, c) \<or>
   (\<exists>d. d \<noteq> [] \<and> socket_recv e (Client_sock c) 1024 = Inr d \<and>
      Client_read e c = Inr (Some d, c\<lparr>Client_buf := LineBuf_write (Client_buf c) d\<rparr>))"
  by (auto simp: Client_read_def dest: socket_recv_error split: sum.splits)

subsection \<open>The serial step\<close>

lemma process_serial_None:
  "dev_read e = [] \<Longrightarrow> process_serial decode e clients ser = Inl AttributeError"
  by (simp add: process_serial_def Serial_read_def)

lemma process_serial_Some:
  "dev_read e \<noteq> [] \<Longrightarrow>
   process_serial decode e clients ser =
     Inr (ser\<lparr>Serial_buf := LineBuf_write (Serial_buf ser) (dev_read e)\<rparr>,
          ConsoleWrite (decode (dev_read e))
          # map (\<lambda>c. SockSend (sock_fd (Client_sock c)) (dev_read e)) (dict_values clients))"
  by (simp add: process_serial_def Serial_read_def Let_def write_each_total)

subsection \<open>The drain loop\<close>

lemma Client_readline_None:
  "no_line c \<Longrightarrow> Client_readline c = (None, c)"
  by (simp add: Client_readline_def no_line_def LineBuf_readline_None)

lemma Client_readline_Some:
  "content (LineBuf_buf (Client_buf c)) = body @ newline # rest \<Longrightarrow> newline \<notin> set body \<Longrightarrow>
   Client_readline c =
     (Some (body @ [newline]), c\<lparr>Client_buf := (Client_buf c)\<lparr>LineBuf_buf := BytesIO_init rest\<rparr>\<rparr>)"
  by (simp add: Client_readline_def LineBuf_readline_Some)

lemma drain_no_line: "no_line c \<Longrightarrow> drain c ser = (c, [])"
  by (subst drain.simps) (simp add: Client_readline_None)

lemma drain_line:
  assumes "content (LineBuf_buf (Client_buf c)) = body @ newline # rest" "newline \<notin> set body"
  shows "drain c ser =
     (fst (drain (c\<lparr>Client_buf := (Client_buf c)\<lparr>LineBuf_buf := BytesIO_init rest\<rparr>\<rparr>) ser),
      SerialWrite (body @ [newline])
      # snd (drain (c\<lparr>Client_buf := (Client_buf c)\<lparr>LineBuf_buf := BytesIO_init rest\<rparr>\<rparr>) ser))"
  by (subst drain.simps)
     (simp add: Client_readline_Some[OF assms] Serial_write_def split: prod.splits)

lemma drain_result:
  "count_list (content (LineBuf_buf (Client_buf c))) newline = k \<Longrightarrow>
   \<exists>ls c'. drain c ser = (c', map SerialWrite ls)
      \<and> length ls = k
      \<and> concat ls @ content (LineBuf_buf (Client_buf c')) = content (LineBuf_buf (Client_buf c))
      \<and> (\<forall>l \<in> set ls. \<exists>body. l = body @ [newline] \<and> newline \<notin> set body)
      \<and> no_line c'
      \<and> Client_sock c' = Client_sock c \<and> Client_addr c' = Client_addr c"
proof (induction k arbitrary: c)
  case 0
  then have "no_line c" by (simp add: no_line_def count_list_0_iff)
  then show ?case by (simp add: drain_no_line)
next
  case (Suc k)
  then have "newline \<in> set (content (LineBuf_buf (Client_buf c)))"
    by (metis count_list_0_iff nat.distinct(1))
  then obtain body rest0 where
    split: "content (LineBuf_buf (Client_buf c)) = body @ newline # rest0"
    and nb: "newline \<notin> set body"
    by (meson split_list_first)
  let ?c1 = "c\<lparr>Client_buf := (Client_buf c)\<lparr>LineBuf_buf := BytesIO_init rest0\<rparr>\<rparr>"
  have "count_list body newline = 0" using nb by (simp add: count_list_0_iff)
  then have "count_list (content (LineBuf_buf (Client_buf ?c1))) newline = k"
    using Suc.prems by (simp add: split BytesIO_init_def)
  from Suc.IH[OF this] obtain ls c' where
    ih: "drain ?c1 ser = (c', map SerialWrite ls)" "length ls = k"
      "concat ls @ content (LineBuf_buf (Client_buf c')) = rest0"
      "\<forall>l \<in> set ls. \<exists>body. l = body @ [newline] \<and> newline \<notin> set body"
      "no_line c'" "Client_sock c' = Client_sock c" "Client_addr c' = Client_addr c"
    by (auto simp: BytesIO_init_def)
  have "drain c ser = (c', map SerialWrite ((body @ [newline]) # ls))"
    using drain_line[OF split nb, of ser] ih(1) by simp
  moreover have "\<forall>l \<in> set ((body @ [newline]) # ls). \<exists>body. l = body @ [newline] \<and> newline \<notin> set body"
    using ih(4) nb by auto
  moreover have "concat ((body @ [newline]) # ls) @ content (LineBuf_buf (Client_buf c'))
      = content (LineBuf_buf (Client_buf c))"
    using ih(3) split by simp
  moreover have "length ((body @ [newline]) # ls) = Suc k" using ih(2) by simp
  ultimately show ?case using ih(5,6,7) by blast
qed

lemma drain_props:
  "drain c ser = (c', evs) \<Longrightarrow>
     no_line c' \<and> Client_sock c' = Client_sock c \<and> list_all is_SerialWrite evs"
  using drain_result[OF refl, of c ser] by (auto simp: list_all_iff)

subsection \<open>The client step\<close>

lemma process_clients_single_gone:
  "Client_read e c = Inr (None, c) \<Longrightarrow> process_clients e [c] ser = Inr ([c], [c], [])"
  by simp

lemma process_clients_Cons:
  "process_clients e (c # cs) ser =
     (case process_clients e [c] ser of
        Inl err \<Rightarrow> Inl err
      | Inr (a, rm, ev) \<Rightarrow>
          (case process_clients e cs ser of
             Inl err \<Rightarrow> Inl err
           | Inr (a', rm', ev') \<Rightarrow> Inr (a @ a', rm @ rm', ev @ ev')))"
  by (auto split: sum.splits prod.splits option.splits)

lemma process_clients_total:
  "\<exists>A R E. process_clients e cs ser = Inr (A, R, E)"
proof (induction cs)
  case Nil
  then show ?case by simp
next
  case (Cons c cs)
  then obtain A R E where ih: "process_clients e cs ser = Inr (A, R, E)" by blast
  from Client_read_cases[of e c] show ?case
  proof
    assume "Client_read e c = Inr (None, c)"
    then show ?thesis using ih by simp
  next
    assume "\<exists>d. d \<noteq> [] \<and> socket_recv e (Client_sock c) 1024 = Inr d \<and>
      Client_read e c = Inr (Some d, c\<lparr>Client_buf := LineBuf_write (Client_buf c) d\<rparr>)"
    then show ?thesis using ih by (auto split: prod.splits)
  qed
qed

lemma process_clients_result:
  "process_clients e cs ser = Inr (A, R, E) \<Longrightarrow>
     map Client_sock A = map Client_sock cs \<and> list_all is_SerialWrite E
     \<and> (list_all no_line cs \<longrightarrow> list_all no_line A)"
proof (induction cs arbitrary: A R E)
  case Nil
  then show ?case by simp
next
  case (Cons c cs)
  obtain A' R' E' where rest: "process_clients e cs ser = Inr (A', R', E')"
    using process_clients_total by blast
  note ih = Cons.IH[OF rest]
  from Client_read_cases[of e c] show ?case
  proof
    assume "Client_read e c = Inr (None, c)"
    then show ?thesis using Cons.prems rest ih by auto
  next
    assume "\<exists>d. d \<noteq> [] \<and> socket_recv e (Client_sock c) 1024 = Inr d \<and>
      Client_read e c = Inr (Some d, c\<lparr>Client_buf := LineBuf_write (Client_buf c) d\<rparr>)"
    then obtain d where d: "d \<noteq> []"
      "Client_read e c = Inr (Some d, c\<lparr>Client_buf := LineBuf_write (Client_buf c) d\<rparr>)"
      by blast
    obtain c2 evs where dr: "drain (c\<lparr>Client_buf := LineBuf_write (Client_buf c) d\<rparr>) ser = (c2, evs)"
      by (cases "drain (c\<lparr>Client_buf := LineBuf_write (Client_buf c) d\<rparr>) ser")
    from drain_props[OF dr] have p: "no_line c2" "Client_sock c2 = Client_sock c"
      "list_all is_SerialWrite evs" by simp_all
    have "A = c2 # A'" "E = evs @ E'" using Cons.prems d dr rest by auto
    then show ?thesis using p ih by simp
  qed
qed

lemma process_clients_removed:
  "list_all (\<lambda>c. \<not> sock_closed (Client_sock c)) cs \<Longrightarrow>
   process_clients e cs ser = Inr (A, R, E) \<Longrightarrow>
   R = filter (\<lambda>c. disconnected e (sock_fd (Client_sock c))) cs"
proof (induction cs arbitrary: A R E)
  case Nil
  then show ?case by simp
next
  case (Cons c cs)
  obtain A' R' E' where rest: "process_clients e cs ser = Inr (A', R', E')"
    using process_clients_total by blast
  have ih: "R' = filter (\<lambda>c. disconnected e (sock_fd (Client_sock c))) cs"
    using Cons.IH[OF _ rest] Cons.prems(1) by simp
  have op: "\<not> sock_closed (Client_sock c)" using Cons.prems(1) by simp
  show ?case
  proof (cases "disconnected e (sock_fd (Client_sock c))")
    case True
    then have "Client_read e c = Inr (None, c)" by (rule Client_read_disconnected)
    then show ?thesis using Cons.prems(2) rest ih True by auto
  next
    case False
    from Client_read_data[OF op False] obtain d where d: "d \<noteq> []"
      "Client_read e c = Inr (Some d, c\<lparr>Client_buf := LineBuf_write (Client_buf c) d\<rparr>)"
      by blast
    then show ?thesis using Cons.prems(2) rest ih False by (auto split: prod.splits)
  qed
qed

subsection \<open>The dictionary\<close>

lemma dict_set_keys:
  "map fst (dict_set d k v) = (if k \<in> set (map fst d) then map fst d else map fst d @ [k])"
  by (induction d k v rule: dict_set.induct) auto

lemma dict_set_values:
  "set (dict_set d k v) \<subseteq> insert (k, v) (set d)"
  by (induction d k v rule: dict_set.induct) auto

lemma registry_ok_dict_set:
  assumes "registry_ok d" "\<not> sock_closed (Client_sock v)" "sock_fd (Client_sock v) = k"
  shows "registry_ok (dict_set d k v)"
proof -
  have "distinct (map fst (dict_set d k v))"
    using assms(1) by (simp add: dict_set_keys registry_ok_def)
  moreover have "\<forall>kv \<in> set (dict_set d k v).
      \<not> sock_closed (Client_sock (snd kv)) \<and> sock_fd (Client_sock (snd kv)) = fst kv"
    using dict_set_values[of d k v] assms by (auto simp: registry_ok_def list_all_iff)
  ultimately show ?thesis by (simp add: registry_ok_def list_all_iff)
qed

lemma registry_ok_accept:
  "registry_ok d \<Longrightarrow> registry_ok (accept_client srv e r d)"
  by (simp add: accept_client_def Let_def registry_ok_dict_set socket_fileno_def Client_init_def)

lemma no_line_accept:
  "list_all (\<lambda>kv. no_line (snd kv)) d \<Longrightarrow> list_all (\<lambda>kv. no_line (snd kv)) (accept_client srv e r d)"
  using dict_set_values[of d "accept_fd e"
      "Client_init \<lparr>sock_fd = accept_fd e, sock_closed = False\<rparr> (accept_addr e)"]
  by (auto simp: accept_client_def Let_def socket_fileno_def list_all_iff no_line_def
      Client_init_def LineBuf_init_def BytesIO_init_def)

lemma write_back_keys: "map fst (write_back r d A) = map fst d"
  by (induction r d A rule: write_back.induct) (auto split: list.splits)

lemma write_back_socks:
  "map Client_sock A = map (\<lambda>kv. Client_sock (snd kv)) (filter (\<lambda>kv. fst kv \<in> set r) d) \<Longrightarrow>
   map (\<lambda>kv. Client_sock (snd kv)) (write_back r d A) = map (\<lambda>kv. Client_sock (snd kv)) d"
  by (induction r d A rule: write_back.induct) (auto split: list.splits)

lemma write_back_list_all:
  "list_all (\<lambda>kv. P (snd kv)) d \<Longrightarrow> list_all P A \<Longrightarrow>
   list_all (\<lambda>kv. P (snd kv)) (write_back r d A)"
  by (induction r d A rule: write_back.induct) (auto split: list.splits)

lemma registry_ok_socks:
  "map fst d' = map fst d \<Longrightarrow>
   map (\<lambda>kv. Client_sock (snd kv)) d' = map (\<lambda>kv. Client_sock (snd kv)) d \<Longrightarrow>
   registry_ok d \<Longrightarrow> registry_ok d'"
proof -
  assume k: "map fst d' = map fst d"
    and s: "map (\<lambda>kv. Client_sock (snd kv)) d' = map (\<lambda>kv. Client_sock (snd kv)) d"
    and ok: "registry_ok d"
  have len: "length d' = length d" using k by (metis length_map)
  have "\<forall>i < length d'. \<not> sock_closed (Client_sock (snd (d' ! i))) \<and>
      sock_fd (Client_sock (snd (d' ! i))) = fst (d' ! i)"
  proof (intro allI impI)
    fix i assume i: "i < length d'"
    have "fst (d' ! i) = fst (d ! i)" using k i len by (metis nth_map)
    moreover have "Client_sock (snd (d' ! i)) = Client_sock (snd (d ! i))"
      using s i len by (metis (mono_tags, lifting) nth_map)
    moreover have "\<not> sock_closed (Client_sock (snd (d ! i))) \<and>
        sock_fd (Client_sock (snd (d ! i))) = fst (d ! i)"
      using ok i len by (simp add: registry_ok_def list_all_length)
    ultimately show "\<not> sock_closed (Client_sock (snd (d' ! i))) \<and>
      sock_fd (Client_sock (snd (d' ! i))) = fst (d' ! i)" by simp
  qed
  then show "registry_ok d'" using ok k by (simp add: registry_ok_def list_all_length)
qed

lemma registry_ok_filter: "registry_ok d \<Longrightarrow> registry_ok (filter P d)"
  by (simp add: registry_ok_def distinct_map_filter list_all_iff)

lemma remove_each_ok:
  "distinct (map Client_fileno R) \<Longrightarrow> set (map Client_fileno R) \<subseteq> set (map fst d) \<Longrightarrow>
   remove_each R d = Inr (filter (\<lambda>kv. fst kv \<notin> set (map Client_fileno R)) d)"
proof (induction R arbitrary: d)
  case Nil
  then show ?case by simp
next
  case (Cons c R)
  let ?k = "Client_fileno c"
  let ?d1 = "filter (\<lambda>kv. fst kv \<noteq> ?k) d"
  have del: "dict_del d ?k = Inr ?d1" using Cons.prems(2) by (simp add: dict_del_def)
  have "set (map Client_fileno R) \<subseteq> set (map fst ?d1)"
  proof
    fix k assume k: "k \<in> set (map Client_fileno R)"
    have "?k \<notin> set (map Client_fileno R)" using Cons.prems(1) by simp
    then have "k \<noteq> ?k" using k by blast
    moreover have "k \<in> set (map fst d)" using k Cons.prems(2) by auto
    ultimately show "k \<in> set (map fst ?d1)" by force
  qed
  moreover have "distinct (map Client_fileno R)" using Cons.prems(1) by simp
  ultimately have "remove_each R ?d1 = Inr (filter (\<lambda>kv. fst kv \<notin> set (map Client_fileno R)) ?d1)"
    by (rule Cons.IH[rotated])
  moreover have "filter (\<lambda>kv. fst kv \<notin> set (map Client_fileno R)) ?d1
      = filter (\<lambda>kv. fst kv \<notin> set (map Client_fileno (c # R))) d"
    by (auto intro: filter_cong)
  ultimately show ?case using del by simp
qed

subsection \<open>One iteration\<close>

lemma registry_ok_fileno:
  "registry_ok d \<Longrightarrow> kv \<in> set d \<Longrightarrow>
   Client_fileno (snd kv) = fst kv \<and> sock_fd (Client_sock (snd kv)) = fst kv
   \<and> \<not> sock_closed (Client_sock (snd kv))"
  by (auto simp: registry_ok_def list_all_iff Client_fileno_def socket_fileno_def)

lemma run_iter_ok:
  fixes st :: state and srv :: int and e :: env
  defines "r \<equiv> select_fds srv e st"
  defines "clients1 \<equiv> accept_client srv e r (fst st)"
  assumes ok: "registry_ok (fst st)"
    and ser: "Serial_fileno (snd st) \<in> set r \<longrightarrow> dev_read e \<noteq> []"
  shows "\<exists>ser1 bcast A R E.
     (if Serial_fileno (snd st) \<in> set r then process_serial decode e clients1 (snd st)
      else Inr (snd st, [])) = Inr (ser1, bcast)
     \<and> process_clients e (map snd (filter (\<lambda>kv. fst kv \<in> set r) clients1)) ser1 = Inr (A, R, E)
     \<and> run_iter decode srv e st =
         Inr ((filter (\<lambda>kv. \<not> (fst kv \<in> set r \<and> disconnected e (fst kv)))
                 (write_back r clients1 A), ser1), bcast @ E)"
proof -
  let ?ready = "filter (\<lambda>kv. fst kv \<in> set r) clients1"
  have ok1: "registry_ok clients1"
    unfolding clients1_def by (rule registry_ok_accept[OF ok])
  obtain ser1 bcast where s1:
    "(if Serial_fileno (snd st) \<in> set r then process_serial decode e clients1 (snd st)
      else Inr (snd st, [])) = Inr (ser1, bcast)"
    using ser by (cases "Serial_fileno (snd st) \<in> set r") (simp_all add: process_serial_Some)
  obtain A R E where pc: "process_clients e (map snd ?ready) ser1 = Inr (A, R, E)"
    using process_clients_total by blast
  have fil: "\<forall>kv \<in> set clients1. Client_fileno (snd kv) = fst kv
      \<and> sock_fd (Client_sock (snd kv)) = fst kv \<and> \<not> sock_closed (Client_sock (snd kv))"
    using registry_ok_fileno[OF ok1] by blast
  have opn: "list_all (\<lambda>c. \<not> sock_closed (Client_sock c)) (map snd ?ready)"
    using fil by (simp add: list_all_iff)
  have R: "R = filter (\<lambda>c. disconnected e (sock_fd (Client_sock c))) (map snd ?ready)"
    by (rule process_clients_removed[OF opn pc])
  have Rk: "map Client_fileno R = filter (disconnected e) (map fst ?ready)"
  proof -
    have "map Client_fileno R
        = map (\<lambda>kv. Client_fileno (snd kv))
            (filter (\<lambda>kv. disconnected e (sock_fd (Client_sock (snd kv)))) ?ready)"
      by (simp add: R filter_map comp_def)
    also have "filter (\<lambda>kv. disconnected e (sock_fd (Client_sock (snd kv)))) ?ready
        = filter (\<lambda>kv. disconnected e (fst kv)) ?ready"
      using fil by (intro filter_cong) auto
    also have "map (\<lambda>kv. Client_fileno (snd kv)) (filter (\<lambda>kv. disconnected e (fst kv)) ?ready)
        = map fst (filter (\<lambda>kv. disconnected e (fst kv)) ?ready)"
      using fil by (intro map_cong) auto
    also have "\<dots> = filter (disconnected e) (map fst ?ready)"
      by (simp add: filter_map comp_def)
    finally show ?thesis .
  qed
  have dk: "distinct (map fst clients1)" using ok1 by (simp add: registry_ok_def)
  have d1: "distinct (map Client_fileno R)"
    unfolding Rk using dk by (simp add: distinct_map_filter)
  let ?wb = "write_back r clients1 A"
  have sub: "set (map Client_fileno R) \<subseteq> set (map fst ?wb)"
    unfolding Rk write_back_keys by auto
  have rm: "remove_each R ?wb = Inr (filter (\<lambda>kv. fst kv \<notin> set (map Client_fileno R)) ?wb)"
    by (rule remove_each_ok[OF d1 sub])
  have "filter (\<lambda>kv. fst kv \<notin> set (map Client_fileno R)) ?wb
      = filter (\<lambda>kv. \<not> (fst kv \<in> set r \<and> disconnected e (fst kv))) ?wb"
  proof (intro filter_cong refl)
    fix kv assume "kv \<in> set ?wb"
    then have "fst kv \<in> set (map fst clients1)"
      by (metis write_back_keys image_eqI list.set_map)
    then show "(fst kv \<notin> set (map Client_fileno R))
        = (\<not> (fst kv \<in> set r \<and> disconnected e (fst kv)))"
      unfolding Rk by auto
  qed
  with rm have rm': "remove_each R ?wb
      = Inr (filter (\<lambda>kv. \<not> (fst kv \<in> set r \<and> disconnected e (fst kv))) ?wb)" by simp
  have "run_iter decode srv e st =
         Inr ((filter (\<lambda>kv. \<not> (fst kv \<in> set r \<and> disconnected e (fst kv))) ?wb, ser1), bcast @ E)"
    using s1 pc rm' unfolding run_iter_def Let_def r_def[symmetric] clients1_def[symmetric]
    by simp
  then show ?thesis using s1 pc by blast
qed

subsection \<open>What an iteration preserves\<close>

lemma run_iter_serial_data:
  assumes "run_iter decode srv e st = Inr (st', evs)"
  shows "Serial_fileno (snd st) \<in> set (select_fds srv e st) \<longrightarrow> dev_read e \<noteq> []"
proof (intro impI notI)
  assume "Serial_fileno (snd st) \<in> set (select_fds srv e st)" "dev_read e = []"
  then have "run_iter decode srv e st = Inl AttributeError"
    by (simp add: run_iter_def Let_def process_serial_None)
  with assms show False by simp
qed

lemma run_iter_preserves:
  assumes ok: "registry_ok (fst st)"
    and nl: "list_all (\<lambda>kv. no_line (snd kv)) (fst st)"
    and ri: "run_iter decode srv e st = Inr (st', evs)"
  shows "registry_ok (fst st') \<and> list_all (\<lambda>kv. no_line (snd kv)) (fst st')"
proof -
  let ?r = "select_fds srv e st"
  let ?c1 = "accept_client srv e ?r (fst st)"
  let ?P = "\<lambda>kv. \<not> (fst kv \<in> set ?r \<and> disconnected e (fst kv))"
  from run_iter_ok[OF ok run_iter_serial_data[OF ri], of decode]
  obtain ser1 bcast A R E where
    pc: "process_clients e (map snd (filter (\<lambda>kv. fst kv \<in> set ?r) ?c1)) ser1 = Inr (A, R, E)"
    and ri': "run_iter decode srv e st = Inr ((filter ?P (write_back ?r ?c1 A), ser1), bcast @ E)"
    by auto
  have st': "fst st' = filter ?P (write_back ?r ?c1 A)" using ri ri' by auto
  have ok1: "registry_ok ?c1" by (rule registry_ok_accept[OF ok])
  have nl1: "list_all (\<lambda>kv. no_line (snd kv)) ?c1" by (rule no_line_accept[OF nl])
  note res = process_clients_result[OF pc]
  have socks: "map Client_sock A
      = map (\<lambda>kv. Client_sock (snd kv)) (filter (\<lambda>kv. fst kv \<in> set ?r) ?c1)"
    using res by (simp add: comp_def)
  have "registry_ok (write_back ?r ?c1 A)"
    by (rule registry_ok_socks[OF write_back_keys write_back_socks[OF socks] ok1])
  then have a: "registry_ok (fst st')" unfolding st' by (rule registry_ok_filter)
  have "list_all no_line (map snd (filter (\<lambda>kv. fst kv \<in> set ?r) ?c1))"
    using nl1 by (simp add: list_all_iff)
  then have "list_all no_line A" using res by simp
  then have "list_all (\<lambda>kv. no_line (snd kv)) (write_back ?r ?c1 A)"
    by (rule write_back_list_all[OF nl1])
  then have b: "list_all (\<lambda>kv. no_line (snd kv)) (fst st')"
    unfolding st' by (simp add: list_all_iff)
  show ?thesis using a b by simp
qed

lemma run_from_preserves:
  "registry_ok (fst st) \<Longrightarrow> list_all (\<lambda>kv. no_line (snd kv)) (fst st) \<Longrightarrow>
   run_from decode srv es st = Inr (st', evs) \<Longrightarrow>
   registry_ok (fst st') \<and> list_all (\<lambda>kv. no_line (snd kv)) (fst st')"
proof (induction es arbitrary: st evs)
  case Nil
  then show ?case by simp
next
  case (Cons e es)
  from Cons.prems(3) obtain st1 evs1 evs2 where
    s1: "run_iter decode srv e st = Inr (st1, evs1)"
    and s2: "run_from decode srv es st1 = Inr (st', evs2)"
    by (auto split: sum.splits prod.splits)
  from run_iter_preserves[OF Cons.prems(1,2) s1]
  have "registry_ok (fst st1)" "list_all (\<lambda>kv. no_line (snd kv)) (fst st1)" by simp_all
  then show ?case using s2 by (rule Cons.IH)
qed

lemma process_clients_skip_gone:
  "\<forall>c \<in> set cs. \<not> Q c \<longrightarrow> Client_read e c = Inr (None, c) \<Longrightarrow>
   process_clients e cs ser = Inr (A, R, E) \<Longrightarrow>
   \<exists>A' R'. process_clients e (filter Q cs) ser = Inr (A', R', E)"
proof (induction cs arbitrary: A R E)
  case Nil
  then show ?case by simp
next
  case (Cons c cs)
  obtain A1 R1 E1 where rest: "process_clients e cs ser = Inr (A1, R1, E1)"
    using process_clients_total by blast
  from Cons.IH[OF _ rest] Cons.prems(1)
  obtain A2 R2 where ih: "process_clients e (filter Q cs) ser = Inr (A2, R2, E1)" by auto
  from Client_read_cases[of e c] show ?case
  proof
    assume g: "Client_read e c = Inr (None, c)"
    then have "E = E1" using Cons.prems(2) rest by simp
    then show ?thesis using g ih by (cases "Q c") simp_all
  next
    assume "\<exists>d. d \<noteq> [] \<and> socket_recv e (Client_sock c) 1024 = Inr d \<and>
      Client_read e c = Inr (Some d, c\<lparr>Client_buf := LineBuf_write (Client_buf c) d\<rparr>)"
    then obtain d where d: "d \<noteq> []"
      "Client_read e c = Inr (Some d, c\<lparr>Client_buf := LineBuf_write (Client_buf c) d\<rparr>)"
      by blast
    then have q: "Q c" using Cons.prems(1) by auto
    obtain c2 evs where dr:
      "drain (c\<lparr>Client_buf := LineBuf_write (Client_buf c) d\<rparr>) ser = (c2, evs)"
      by (cases "drain (c\<lparr>Client_buf := LineBuf_write (Client_buf c) d\<rparr>) ser")
    have "E = evs @ E1" using Cons.prems(2) rest d dr by simp
    then show ?thesis using q d dr ih by simp
  qed
qed

section \<open>Claims\<close>

text \<open>The definitions that evaluate the model on the example values.\<close>

lemmas ex_defs = ex_env_def ex_client_def registry_ok_def select_fds_def accept_client_def
  run_iter_def process_serial_def Serial_read_def Serial_fileno_def Serial_init_def
  Serial_write_def Client_write_def Client_read_def Client_readline_def Client_fileno_def
  Client_init_def socket_send_def socket_recv_def socket_fileno_def
  LineBuf_write_def LineBuf_readline_def LineBuf_init_def BytesIO_write_def BytesIO_init_def
  BytesIO_getvalue_def bytes_find_def dict_values_def dict_keys_def dict_del_def
  disconnected_def no_line_def Let_def drain.simps



text \<open>
  Claim C1. When the read of the serial device returns the bytes \<open>S\<close>,
  \<^verbatim>\<open>process_serial\<close> completes, and what it does is exactly this, in this
  order: it writes \<open>S\<close>, decoded, to the console, and then calls \<^verbatim>\<open>send\<close> once
  with the whole of \<open>S\<close> on the socket of every client in the dictionary, in
  dictionary order. Nothing else happens in between, whatever the sends return.
\<close>

theorem process_serial_broadcast:
  assumes "fst (Serial_read e ser) = Some S"
  shows "process_serial decode e clients ser =
     Inr (snd (Serial_read e ser),
          ConsoleWrite (decode S)
          # map (\<lambda>c. SockSend (sock_fd (Client_sock c)) S) (dict_values clients))"
proof -
  have ne: "dev_read e \<noteq> []" and S: "S = dev_read e"
    using assms by (auto simp: Serial_read_def Let_def split: if_splits)
  show ?thesis
    by (simp add: process_serial_Some[OF ne] S Serial_read_def Let_def ne)
qed

theorem process_serial_broadcast_witness:
  "fst (Serial_read
         \<lparr>select_ready = (\<lambda>fds. [4]), accept_fd = 7, accept_addr = ''peer'',
          dev_read = [112, 111, 110, 103, 10],
          sock_recv = (\<lambda>fd. Pending []), sock_send = (\<lambda>fd data. if fd = 5 then SendOSError else Sent 2)\<rparr>
         (Serial_init 4)) = Some [112, 111, 110, 103, 10]
   \<and> (\<exists>ser1. process_serial (map unat)
         \<lparr>select_ready = (\<lambda>fds. [4]), accept_fd = 7, accept_addr = ''peer'',
          dev_read = [112, 111, 110, 103, 10],
          sock_recv = (\<lambda>fd. Pending []), sock_send = (\<lambda>fd data. if fd = 5 then SendOSError else Sent 2)\<rparr>
         [(5, Client_init \<lparr>sock_fd = 5, sock_closed = False\<rparr> ''a''),
          (6, Client_init \<lparr>sock_fd = 6, sock_closed = False\<rparr> ''b'')]
         (Serial_init 4)
       = Inr (ser1, [ConsoleWrite [112, 111, 110, 103, 10],
               SockSend 5 [112, 111, 110, 103, 10],
               SockSend 6 [112, 111, 110, 103, 10]]))"
proof -
  let ?e = "\<lparr>select_ready = (\<lambda>fds. [4]), accept_fd = 7, accept_addr = ''peer'',
          dev_read = [112, 111, 110, 103, 10],
          sock_recv = (\<lambda>fd. Pending []),
          sock_send = (\<lambda>fd data. if fd = 5 then SendOSError else Sent 2)\<rparr>"
  have h: "fst (Serial_read ?e (Serial_init 4)) = Some [112, 111, 110, 103, 10]"
    by (simp add: Serial_read_def Let_def)
  show ?thesis
    using h process_serial_broadcast [OF h, of "map unat"
        "[(5, Client_init \<lparr>sock_fd = 5, sock_closed = False\<rparr> ''a''),
          (6, Client_init \<lparr>sock_fd = 6, sock_closed = False\<rparr> ''b'')]"]
    by (simp add: dict_values_def Client_init_def)
qed

text \<open>
  Claim C9. When the device returns no bytes, \<^verbatim>\<open>Serial.read\<close> returns
  \<^verbatim>\<open>None\<close> and \<^verbatim>\<open>process_serial\<close> raises \<^verbatim>\<open>AttributeError\<close>; an iteration in
  which the serial device is reported ready then ends with that exception, and so
  does the loop. When the device returns at least one byte, \<^verbatim>\<open>Serial.read\<close>
  returns it and \<^verbatim>\<open>process_serial\<close> completes.
\<close>

theorem process_serial_needs_data:
  "(dev_read e = [] \<longrightarrow>
      fst (Serial_read e ser) = None
      \<and> process_serial decode e clients ser = Inl AttributeError
      \<and> (Serial_fileno (snd st) \<in> set (select_fds srv e st) \<longrightarrow>
           run_iter decode srv e st = Inl AttributeError
           \<and> run_from decode srv (e # es) st = Inl AttributeError))
   \<and> (dev_read e \<noteq> [] \<longrightarrow>
        (\<exists>data ser1 evs. fst (Serial_read e ser) = Some data \<and> data \<noteq> []
           \<and> process_serial decode e clients ser = Inr (ser1, evs)))"
  by (simp add: process_serial_None process_serial_Some Serial_read_def run_iter_def Let_def)

theorem process_serial_needs_data_witness:
  "dev_read \<lparr>select_ready = (\<lambda>fds. [4]), accept_fd = 7, accept_addr = ''peer'',
          dev_read = [], sock_recv = (\<lambda>fd. Pending []), sock_send = (\<lambda>fd data. Sent 0)\<rparr> = []
   \<and> Serial_fileno (snd ([], Serial_init 4))
       \<in> set (select_fds 3 \<lparr>select_ready = (\<lambda>fds. [4]), accept_fd = 7, accept_addr = ''peer'',
          dev_read = [], sock_recv = (\<lambda>fd. Pending []), sock_send = (\<lambda>fd data. Sent 0)\<rparr>
          ([], Serial_init 4))
   \<and> run_iter (map unat) 3 \<lparr>select_ready = (\<lambda>fds. [4]), accept_fd = 7, accept_addr = ''peer'',
          dev_read = [], sock_recv = (\<lambda>fd. Pending []), sock_send = (\<lambda>fd data. Sent 0)\<rparr>
          ([], Serial_init 4) = Inl AttributeError
   \<and> dev_read \<lparr>select_ready = (\<lambda>fds. [4]), accept_fd = 7, accept_addr = ''peer'',
          dev_read = [62], sock_recv = (\<lambda>fd. Pending []), sock_send = (\<lambda>fd data. Sent 0)\<rparr> \<noteq> []
   \<and> (\<exists>ser1 evs. process_serial (map unat)
          \<lparr>select_ready = (\<lambda>fds. [4]), accept_fd = 7, accept_addr = ''peer'',
          dev_read = [62], sock_recv = (\<lambda>fd. Pending []), sock_send = (\<lambda>fd data. Sent 0)\<rparr>
          [] (Serial_init 4) = Inr (ser1, evs))"
  using process_serial_needs_data [of
      "\<lparr>select_ready = (\<lambda>fds. [4]), accept_fd = 7, accept_addr = ''peer'',
          dev_read = [], sock_recv = (\<lambda>fd. Pending []), sock_send = (\<lambda>fd data. Sent 0)\<rparr>"
      "Serial_init 4" "map unat" "[]" "([], Serial_init 4)" 3 "[]"]
    process_serial_needs_data [of
      "\<lparr>select_ready = (\<lambda>fds. [4]), accept_fd = 7, accept_addr = ''peer'',
          dev_read = [62], sock_recv = (\<lambda>fd. Pending []), sock_send = (\<lambda>fd data. Sent 0)\<rparr>"
      "Serial_init 4" "map unat" "[]" "([], Serial_init 4)" 3 "[]"]
  by (auto simp: select_fds_def Serial_fileno_def Serial_init_def Let_def)

text \<open>
  Claim C5. In an iteration that starts from a well-formed dictionary and in
  which the serial device is ready and returns data, the events of the iteration
  are those of \<^verbatim>\<open>process_serial\<close> followed by those of \<^verbatim>\<open>process_clients\<close>:
  first the console echo and the send to every client, none of which is a write
  to the serial device, and after them the lines forwarded from the ready
  clients, all of which are writes to the serial device.
\<close>

theorem broadcast_before_forward:
  fixes st :: state and srv :: int and e :: env
  defines "r \<equiv> select_fds srv e st"
  defines "clients1 \<equiv> accept_client srv e r (fst st)"
  assumes ok: "registry_ok (fst st)"
    and ready: "Serial_fileno (snd st) \<in> set r"
    and data: "dev_read e \<noteq> []"
  shows "\<exists>ser1 bcast A R fwd st'.
      process_serial decode e clients1 (snd st) = Inr (ser1, bcast)
    \<and> process_clients e (map snd (filter (\<lambda>kv. fst kv \<in> set r) clients1)) ser1 = Inr (A, R, fwd)
    \<and> run_iter decode srv e st = Inr (st', bcast @ fwd)
    \<and> bcast = ConsoleWrite (decode (dev_read e))
              # map (\<lambda>c. SockSend (sock_fd (Client_sock c)) (dev_read e)) (dict_values clients1)
    \<and> list_all (\<lambda>ev. \<not> is_SerialWrite ev) bcast
    \<and> list_all is_SerialWrite fwd"
proof -
  from run_iter_ok[of st srv e decode] ok ready data
  obtain ser1 bcast A R E where
    s: "process_serial decode e clients1 (snd st) = Inr (ser1, bcast)"
    and pc: "process_clients e (map snd (filter (\<lambda>kv. fst kv \<in> set r) clients1)) ser1 = Inr (A, R, E)"
    and ri: "run_iter decode srv e st =
         Inr ((filter (\<lambda>kv. \<not> (fst kv \<in> set r \<and> disconnected e (fst kv)))
                 (write_back r clients1 A), ser1), bcast @ E)"
    unfolding r_def clients1_def by auto
  have b: "bcast = ConsoleWrite (decode (dev_read e))
              # map (\<lambda>c. SockSend (sock_fd (Client_sock c)) (dev_read e)) (dict_values clients1)"
    using s by (simp add: process_serial_Some[OF data])
  have nb: "list_all (\<lambda>ev. \<not> is_SerialWrite ev) bcast"
    by (simp add: b list_all_iff)
  have fw: "list_all is_SerialWrite E"
    using process_clients_result[OF pc] by simp
  show ?thesis using s pc ri b nb fw by blast
qed

theorem broadcast_before_forward_witness:
  "registry_ok (fst ([(5, ex_client 5 [] 0), (6, ex_client 6 [] 0)], Serial_init 4))
   \<and> Serial_fileno (snd ([(5, ex_client 5 [] 0), (6, ex_client 6 [] 0)], Serial_init 4))
       \<in> set (select_fds 3 (ex_env [4, 5] [62] (\<lambda>fd. Pending [97, 10]))
                ([(5, ex_client 5 [] 0), (6, ex_client 6 [] 0)], Serial_init 4))
   \<and> dev_read (ex_env [4, 5] [62] (\<lambda>fd. Pending [97, 10])) \<noteq> []
   \<and> (\<exists>st'. run_iter (map unat) 3 (ex_env [4, 5] [62] (\<lambda>fd. Pending [97, 10]))
          ([(5, ex_client 5 [] 0), (6, ex_client 6 [] 0)], Serial_init 4)
        = Inr (st', [ConsoleWrite [62], SockSend 5 [62], SockSend 6 [62], SerialWrite [97, 10]]))"
  using broadcast_before_forward [of
      "([(5, ex_client 5 [] 0), (6, ex_client 6 [] 0)], Serial_init 4)" 3
      "ex_env [4, 5] [62] (\<lambda>fd. Pending [97, 10])" "map unat"]
  by (simp add: ex_defs)

text \<open>
  Claim C6. Whatever \<^verbatim>\<open>recv\<close> and \<^verbatim>\<open>send\<close> do on the client sockets, an
  iteration that starts from a well-formed dictionary completes without an
  exception (given that the serial device, if ready, returns data), the
  dictionary stays well-formed, and the clients that leave it are exactly the
  ready ones whose \<^verbatim>\<open>recv\<close> raised or returned nothing; all others stay. For
  such a client \<^verbatim>\<open>Client.read\<close> returns \<^verbatim>\<open>None\<close> and
  \<^verbatim>\<open>process_clients\<close> only puts it on the removal list; \<^verbatim>\<open>process_clients\<close>
  never raises; and \<^verbatim>\<open>Client.write\<close> returns normally whether or not
  \<^verbatim>\<open>send\<close> raised.
\<close>

theorem client_errors_contained:
  fixes st :: state and srv :: int and e :: env
  defines "r \<equiv> select_fds srv e st"
  defines "clients1 \<equiv> accept_client srv e r (fst st)"
  assumes ok: "registry_ok (fst st)"
    and ser: "Serial_fileno (snd st) \<in> set r \<longrightarrow> dev_read e \<noteq> []"
  shows "(\<exists>st' evs. run_iter decode srv e st = Inr (st', evs)
            \<and> registry_ok (fst st')
            \<and> dict_keys (fst st')
                = filter (\<lambda>k. \<not> (k \<in> set r \<and> disconnected e k)) (dict_keys clients1))
       \<and> (\<forall>c ser1. disconnected e (sock_fd (Client_sock c)) \<longrightarrow>
              Client_read e c = Inr (None, c)
              \<and> process_clients e [c] ser1 = Inr ([c], [c], []))
       \<and> (\<forall>cs ser1. \<exists>A R E. process_clients e cs ser1 = Inr (A, R, E))
       \<and> (\<forall>c data. Client_write e c data = Inr [SockSend (sock_fd (Client_sock c)) data])"
proof -
  let ?P = "\<lambda>kv. \<not> (fst kv \<in> set r \<and> disconnected e (fst kv))"
  from run_iter_ok[of st srv e decode] ok ser
  obtain ser1 bcast A R E where
    pc: "process_clients e (map snd (filter (\<lambda>kv. fst kv \<in> set r) clients1)) ser1 = Inr (A, R, E)"
    and ri: "run_iter decode srv e st =
         Inr ((filter ?P (write_back r clients1 A), ser1), bcast @ E)"
    unfolding r_def clients1_def by auto
  have ok1: "registry_ok clients1"
    unfolding clients1_def by (rule registry_ok_accept[OF ok])
  have socks: "map Client_sock A
      = map (\<lambda>kv. Client_sock (snd kv)) (filter (\<lambda>kv. fst kv \<in> set r) clients1)"
    using process_clients_result[OF pc] by (simp add: comp_def)
  have "registry_ok (write_back r clients1 A)"
    by (rule registry_ok_socks[OF write_back_keys write_back_socks[OF socks] ok1])
  then have ok2: "registry_ok (filter ?P (write_back r clients1 A))"
    by (rule registry_ok_filter)
  have keys: "dict_keys (filter ?P (write_back r clients1 A))
      = filter (\<lambda>k. \<not> (k \<in> set r \<and> disconnected e k)) (dict_keys clients1)"
  proof -
    let ?Q = "\<lambda>k. \<not> (k \<in> set r \<and> disconnected e k)"
    have "map fst (filter ?P (write_back r clients1 A))
        = filter ?Q (map fst (write_back r clients1 A))"
      by (simp add: filter_map comp_def)
    also have "\<dots> = filter ?Q (map fst clients1)"
      by (simp only: write_back_keys)
    finally show ?thesis by (simp add: dict_keys_def)
  qed
  have 1: "\<exists>st' evs. run_iter decode srv e st = Inr (st', evs)
            \<and> registry_ok (fst st')
            \<and> dict_keys (fst st')
                = filter (\<lambda>k. \<not> (k \<in> set r \<and> disconnected e k)) (dict_keys clients1)"
    using ri ok2 keys by simp
  have 2: "\<forall>c ser1. disconnected e (sock_fd (Client_sock c)) \<longrightarrow>
              Client_read e c = Inr (None, c)
              \<and> process_clients e [c] ser1 = Inr ([c], [c], [])"
    by (simp add: Client_read_disconnected)
  show ?thesis using 1 2 process_clients_total Client_write_total by blast
qed

theorem client_errors_contained_witness:
  "registry_ok (fst ([(5, ex_client 5 [] 0), (6, ex_client 6 [] 0)], Serial_init 4))
   \<and> Serial_fileno (snd ([(5, ex_client 5 [] 0), (6, ex_client 6 [] 0)], Serial_init 4))
       \<in> set (select_fds 3 (ex_env [4, 5, 6] [62] (\<lambda>fd. if fd = 5 then Pending [97, 10] else RecvOSError))
                ([(5, ex_client 5 [] 0), (6, ex_client 6 [] 0)], Serial_init 4))
   \<and> dev_read (ex_env [4, 5, 6] [62] (\<lambda>fd. if fd = 5 then Pending [97, 10] else RecvOSError)) \<noteq> []
   \<and> disconnected (ex_env [4, 5, 6] [62] (\<lambda>fd. if fd = 5 then Pending [97, 10] else RecvOSError)) 6
   \<and> (\<exists>st' evs. run_iter (map unat) 3
          (ex_env [4, 5, 6] [62] (\<lambda>fd. if fd = 5 then Pending [97, 10] else RecvOSError))
          ([(5, ex_client 5 [] 0), (6, ex_client 6 [] 0)], Serial_init 4) = Inr (st', evs)
        \<and> registry_ok (fst st') \<and> dict_keys (fst st') = [5])"
  using client_errors_contained [of
      "([(5, ex_client 5 [] 0), (6, ex_client 6 [] 0)], Serial_init 4)" 3
      "ex_env [4, 5, 6] [62] (\<lambda>fd. if fd = 5 then Pending [97, 10] else RecvOSError)" "map unat"]
  by (simp add: ex_defs)

text \<open>
  Claim C10. After every number of completed iterations of the loop, started
  with the empty dictionary, no client in the dictionary has a newline in its
  buffer. The reason is the drain loop: whatever the buffer holds, it ends with
  no newline left, and what it wrote to the serial device, line by line, followed
  by what it left in the buffer is what the buffer held when it started; each
  line written ends with the first newline after the previous line.
\<close>

theorem no_buffered_line_between_iterations:
  assumes "run decode ser srv es = Inr (st, evs)"
  shows "list_all (\<lambda>kv. no_line (snd kv)) (fst st)
     \<and> (\<forall>c s. \<exists>ls c'. drain c s = (c', map SerialWrite ls)
           \<and> no_line c'
           \<and> concat ls @ content (LineBuf_buf (Client_buf c')) = content (LineBuf_buf (Client_buf c))
           \<and> (\<forall>l \<in> set ls. \<exists>body. l = body @ [newline] \<and> newline \<notin> set body))"
proof -
  have "registry_ok (fst ([], ser))" "list_all (\<lambda>kv. no_line (snd kv)) (fst ([], ser))"
    by (simp_all add: registry_ok_def)
  from run_from_preserves[OF this assms[unfolded run_def]]
  have 1: "list_all (\<lambda>kv. no_line (snd kv)) (fst st)" by simp
  have 2: "\<exists>ls c'. drain c s = (c', map SerialWrite ls)
           \<and> no_line c'
           \<and> concat ls @ content (LineBuf_buf (Client_buf c')) = content (LineBuf_buf (Client_buf c))
           \<and> (\<forall>l \<in> set ls. \<exists>body. l = body @ [newline] \<and> newline \<notin> set body)" for c s
    using drain_result[OF refl, of c s] by blast
  show ?thesis using 1 2 by blast
qed

theorem no_buffered_line_between_iterations_witness:
  "run (map unat) (Serial_init 4) 3
     [ex_env [3] [] (\<lambda>fd. Pending []),
      ex_env [7] [] (\<lambda>fd. Pending [97, 10, 98, 10]),
      ex_env [4, 7] [62] (\<lambda>fd. Pending [99])]
   = Inr (([(7, ex_client 7 [99] 1)],
           \<lparr>Serial_dev = 4, Serial_buf = \<lparr>LineBuf_buf = \<lparr>content = [62], pos = 1\<rparr>\<rparr>\<rparr>),
          [SerialWrite [97, 10], SerialWrite [98, 10], ConsoleWrite [62], SockSend 7 [62]])
   \<and> list_all (\<lambda>kv. no_line (snd kv)) [(7, ex_client 7 [99] 1)]"
proof -
  have h: "run (map unat) (Serial_init 4) 3
     [ex_env [3] [] (\<lambda>fd. Pending []),
      ex_env [7] [] (\<lambda>fd. Pending [97, 10, 98, 10]),
      ex_env [4, 7] [62] (\<lambda>fd. Pending [99])]
   = Inr (([(7, ex_client 7 [99] 1)],
           \<lparr>Serial_dev = 4, Serial_buf = \<lparr>LineBuf_buf = \<lparr>content = [62], pos = 1\<rparr>\<rparr>\<rparr>),
          [SerialWrite [97, 10], SerialWrite [98, 10], ConsoleWrite [62], SockSend 7 [62]])"
    by (simp add: run_def ex_defs)
  show ?thesis
    using h no_buffered_line_between_iterations [OF h] by simp
qed

text \<open>
  A split line with nothing before it. Take a client whose buffer is at stream
  position 0 and holds no newline, as for a new client. Let one read return
  \<open>d1\<close>, not empty and without a newline, and the next read return \<open>d2\<close>
  followed by a newline, \<open>d2\<close> without one. Then the first \<^verbatim>\<open>process_clients\<close>
  writes nothing to the serial device and marks nothing for removal, and the
  second writes exactly one line, \<open>d1\<close> followed by \<open>d2\<close> and the newline. The
  example is \<^verbatim>\<open>"AT\r"\<close> followed by \<^verbatim>\<open>"\n"\<close>.
\<close>

lemma split_line_forwarded_once:
  assumes p0: "pos (LineBuf_buf (Client_buf c)) = 0"
    and nl: "no_line c"
    and r1: "socket_recv e1 (Client_sock c) 1024 = Inr d1"
    and d1: "d1 \<noteq> []" "newline \<notin> set d1"
    and r2: "socket_recv e2 (Client_sock c) 1024 = Inr (d2 @ [newline])"
    and d2: "newline \<notin> set d2"
  shows "\<exists>c1 c2. process_clients e1 [c] ser = Inr ([c1], [], [])
        \<and> process_clients e2 [c1] ser = Inr ([c2], [], [SerialWrite (d1 @ d2 @ [newline])])
        \<and> no_line c2"
proof -
  let ?old = "content (LineBuf_buf (Client_buf c))"
  let ?c1 = "c\<lparr>Client_buf := LineBuf_write (Client_buf c) d1\<rparr>"
  have old: "newline \<notin> set ?old" using nl by (simp add: no_line_def)
  have rd1: "Client_read e1 c = Inr (Some d1, ?c1)"
    using r1 d1(1) by (simp add: Client_read_def)
  have b1: "LineBuf_buf (LineBuf_write (Client_buf c) d1)
      = \<lparr>content = d1 @ drop (length d1) ?old, pos = length d1\<rparr>"
    using p0 by (simp add: LineBuf_write_def BytesIO_write_def)
  have "set (drop (length d1) ?old) \<subseteq> set ?old" by (rule set_drop_subset)
  then have nl1: "no_line ?c1" using old d1(2) by (auto simp: no_line_def b1)
  have step1: "process_clients e1 [?c1\<lparr>Client_buf := Client_buf c\<rparr>] ser = Inr ([?c1], [], [])"
    using rd1 d1(1) by (simp add: drain_no_line[OF nl1])
  have same: "?c1\<lparr>Client_buf := Client_buf c\<rparr> = c" by simp
  let ?data = "d2 @ [newline]"
  let ?c2 = "?c1\<lparr>Client_buf := LineBuf_write (Client_buf ?c1) ?data\<rparr>"
  let ?rest = "drop (length d1 + length ?data) (d1 @ drop (length d1) ?old)"
  have rd2: "Client_read e2 ?c1 = Inr (Some ?data, ?c2)"
    using r2 by (simp add: Client_read_def)
  have b2: "content (LineBuf_buf (Client_buf ?c2)) = (d1 @ d2) @ newline # ?rest"
    using p0 by (simp add: LineBuf_write_def BytesIO_write_def Let_def)
  have nb: "newline \<notin> set (d1 @ d2)" using d1(2) d2 by simp
  let ?c3 = "?c2\<lparr>Client_buf := (Client_buf ?c2)\<lparr>LineBuf_buf := BytesIO_init ?rest\<rparr>\<rparr>"
  have "set ?rest \<subseteq> set (d1 @ drop (length d1) ?old)" by (rule set_drop_subset)
  then have "newline \<notin> set ?rest" using nl1 by (auto simp: no_line_def b1)
  then have nl3: "no_line ?c3" by (simp add: no_line_def BytesIO_init_def)
  have dn: "drain ?c3 ser = (?c3, [])" by (rule drain_no_line[OF nl3])
  have dr: "drain ?c2 ser = (?c3, [SerialWrite ((d1 @ d2) @ [newline])])"
    by (subst drain_line[OF b2 nb]) (simp only: dn fst_conv snd_conv)
  have step2: "process_clients e2 [?c1] ser = Inr ([?c3], [], [SerialWrite (d1 @ d2 @ [newline])])"
    using rd2 dr by simp
  show ?thesis using step1 step2 nl3 unfolding same by blast
qed

lemma split_line_forwarded_once_example:
  "pos (LineBuf_buf (Client_buf (ex_client 7 [] 0))) = 0
   \<and> no_line (ex_client 7 [] 0)
   \<and> socket_recv (ex_env [7] [] (\<lambda>fd. Pending [65, 84, 13]))
         (Client_sock (ex_client 7 [] 0)) 1024 = Inr [65, 84, 13]
   \<and> socket_recv (ex_env [7] [] (\<lambda>fd. Pending [10]))
         (Client_sock (ex_client 7 [] 0)) 1024 = Inr ([] @ [newline])
   \<and> process_clients (ex_env [7] [] (\<lambda>fd. Pending [65, 84, 13])) [ex_client 7 [] 0] (Serial_init 4)
       = Inr ([ex_client 7 [65, 84, 13] 3], [], [])
   \<and> process_clients (ex_env [7] [] (\<lambda>fd. Pending [10])) [ex_client 7 [65, 84, 13] 3] (Serial_init 4)
       = Inr ([ex_client 7 [] 0], [], [SerialWrite [65, 84, 13, 10]])
   \<and> run (map unat) (Serial_init 4) 3
         [ex_env [3] [] (\<lambda>fd. Pending []),
          ex_env [7] [] (\<lambda>fd. Pending [65, 84, 13]),
          ex_env [7] [] (\<lambda>fd. Pending [10])]
       = Inr (([(7, ex_client 7 [] 0)], Serial_init 4), [SerialWrite [65, 84, 13, 10]])"
  using split_line_forwarded_once [of "ex_client 7 [] 0"
      "ex_env [7] [] (\<lambda>fd. Pending [65, 84, 13])" "[65, 84, 13]"
      "ex_env [7] [] (\<lambda>fd. Pending [10])" "[]" "Serial_init 4"]
  by (simp add: run_def ex_defs)

text \<open>
  Claim C7 says that a line that reaches the server in two reads is written to
  the serial device once and whole. That fails when the first part of the line
  arrives behind a complete line. A new client sends \<^verbatim>\<open>"X\nAT\r"\<close> and then
  \<^verbatim>\<open>"\n"\<close>. After the first read \<^verbatim>\<open>"X\n"\<close> is forwarded and \<^verbatim>\<open>readline\<close>
  keeps \<^verbatim>\<open>"AT\r"\<close> in a new stream, which starts at position 0. The second
  read writes its newline over the \<^verbatim>\<open>"A"\<close>, so the line forwarded is the bare
  \<^verbatim>\<open>"\n"\<close> and \<^verbatim>\<open>"T\r"\<close> stays behind in the buffer: the serial device
  receives \<^verbatim>\<open>"X\n"\<close> and \<^verbatim>\<open>"\n"\<close> and never \<^verbatim>\<open>"AT\r\n"\<close>.
\<close>

theorem split_line_behind_line_lost:
  "process_clients (ex_env [7] [] (\<lambda>fd. Pending [88, 10, 65, 84, 13])) [ex_client 7 [] 0]
       (Serial_init 4)
     = Inr ([ex_client 7 [65, 84, 13] 0], [], [SerialWrite [88, 10]])
   \<and> process_clients (ex_env [7] [] (\<lambda>fd. Pending [10])) [ex_client 7 [65, 84, 13] 0]
       (Serial_init 4)
     = Inr ([ex_client 7 [84, 13] 0], [], [SerialWrite [10]])
   \<and> run (map unat) (Serial_init 4) 3
         [ex_env [3] [] (\<lambda>fd. Pending []),
          ex_env [7] [] (\<lambda>fd. Pending [88, 10, 65, 84, 13]),
          ex_env [7] [] (\<lambda>fd. Pending [10])]
       = Inr (([(7, ex_client 7 [84, 13] 0)], Serial_init 4),
              [SerialWrite [88, 10], SerialWrite [10]])"
  by (simp add: run_def ex_defs)

text \<open>
  Claim C8. Let a client of the dictionary be ready, and let its \<^verbatim>\<open>recv\<close> raise
  or return nothing. Whatever its buffer holds, \<^verbatim>\<open>process_clients\<close> leaves the
  client as it is, puts it on the removal list and writes nothing to the serial
  device for it: the events of the whole iteration are those of the serial step
  followed by those of \<^verbatim>\<open>process_clients\<close> on the other ready clients. The
  iteration completes, and afterwards the client's descriptor is no longer a key
  of the dictionary, so the client and its buffer are gone from the state.
\<close>

theorem disconnect_discards_partial_line:
  fixes st :: state and srv :: int and e :: env
  defines "r \<equiv> select_fds srv e st"
  defines "clients1 \<equiv> accept_client srv e r (fst st)"
  assumes ok: "registry_ok (fst st)"
    and ser: "Serial_fileno (snd st) \<in> set r \<longrightarrow> dev_read e \<noteq> []"
    and mem: "(k, c) \<in> set clients1"
    and rdy: "k \<in> set r"
    and gone: "disconnected e k"
  shows "process_clients e [c] s = Inr ([c], [c], [])
     \<and> (\<exists>st' ser1 bcast A R E.
          (if Serial_fileno (snd st) \<in> set r then process_serial decode e clients1 (snd st)
           else Inr (snd st, [])) = Inr (ser1, bcast)
        \<and> process_clients e
             (map snd (filter (\<lambda>kv. fst kv \<in> set r \<and> fst kv \<noteq> k) clients1)) ser1
            = Inr (A, R, E)
        \<and> run_iter decode srv e st = Inr (st', bcast @ E)
        \<and> k \<notin> set (dict_keys (fst st')))"
proof -
  let ?ready = "filter (\<lambda>kv. fst kv \<in> set r) clients1"
  let ?P = "\<lambda>kv. \<not> (fst kv \<in> set r \<and> disconnected e (fst kv))"
  let ?Q = "\<lambda>c. sock_fd (Client_sock c) \<noteq> k"
  have ok1: "registry_ok clients1"
    unfolding clients1_def by (rule registry_ok_accept[OF ok])
  have fil: "\<forall>kv \<in> set clients1. sock_fd (Client_sock (snd kv)) = fst kv"
    using registry_ok_fileno[OF ok1] by blast
  have "sock_fd (Client_sock c) = k" using fil mem by force
  then have one: "process_clients e [c] s = Inr ([c], [c], [])"
    using gone by (simp add: Client_read_disconnected)
  from run_iter_ok[of st srv e decode] ok ser
  obtain ser1 bcast A R E where
    s1: "(if Serial_fileno (snd st) \<in> set r then process_serial decode e clients1 (snd st)
      else Inr (snd st, [])) = Inr (ser1, bcast)"
    and pc: "process_clients e (map snd ?ready) ser1 = Inr (A, R, E)"
    and ri: "run_iter decode srv e st =
         Inr ((filter ?P (write_back r clients1 A), ser1), bcast @ E)"
    unfolding r_def clients1_def by auto
  have "\<forall>c' \<in> set (map snd ?ready). \<not> ?Q c' \<longrightarrow> Client_read e c' = Inr (None, c')"
    using gone by (auto simp: Client_read_disconnected)
  from process_clients_skip_gone[OF this pc]
  obtain A' R' where pc': "process_clients e (filter ?Q (map snd ?ready)) ser1 = Inr (A', R', E)"
    by blast
  have "filter ?Q (map snd ?ready) = map snd (filter (\<lambda>kv. ?Q (snd kv)) ?ready)"
    by (simp add: filter_map comp_def)
  also have "filter (\<lambda>kv. ?Q (snd kv)) ?ready = filter (\<lambda>kv. fst kv \<noteq> k) ?ready"
    using fil by (intro filter_cong) auto
  also have "\<dots> = filter (\<lambda>kv. fst kv \<in> set r \<and> fst kv \<noteq> k) clients1"
    by (simp add: conj_commute)
  finally have pc'': "process_clients e
      (map snd (filter (\<lambda>kv. fst kv \<in> set r \<and> fst kv \<noteq> k) clients1)) ser1 = Inr (A', R', E)"
    using pc' by simp
  have "k \<notin> set (dict_keys (filter ?P (write_back r clients1 A)))"
    using rdy gone by (auto simp: dict_keys_def)
  then show ?thesis using one s1 pc'' ri by auto
qed

theorem disconnect_discards_partial_line_witness:
  "registry_ok (fst ([(5, ex_client 5 [65, 84] 2), (6, ex_client 6 [] 0)], Serial_init 4))
   \<and> Serial_fileno (snd ([(5, ex_client 5 [65, 84] 2), (6, ex_client 6 [] 0)], Serial_init 4))
        \<notin> set (select_fds 3 (ex_env [5, 6] [] (\<lambda>fd. if fd = 5 then Pending [] else Pending [104, 10]))
             ([(5, ex_client 5 [65, 84] 2), (6, ex_client 6 [] 0)], Serial_init 4))
   \<and> (5, ex_client 5 [65, 84] 2)
        \<in> set (accept_client 3 (ex_env [5, 6] [] (\<lambda>fd. if fd = 5 then Pending [] else Pending [104, 10]))
             (select_fds 3 (ex_env [5, 6] [] (\<lambda>fd. if fd = 5 then Pending [] else Pending [104, 10]))
                ([(5, ex_client 5 [65, 84] 2), (6, ex_client 6 [] 0)], Serial_init 4))
             (fst ([(5, ex_client 5 [65, 84] 2), (6, ex_client 6 [] 0)], Serial_init 4)))
   \<and> 5 \<in> set (select_fds 3 (ex_env [5, 6] [] (\<lambda>fd. if fd = 5 then Pending [] else Pending [104, 10]))
             ([(5, ex_client 5 [65, 84] 2), (6, ex_client 6 [] 0)], Serial_init 4))
   \<and> disconnected (ex_env [5, 6] [] (\<lambda>fd. if fd = 5 then Pending [] else Pending [104, 10])) 5
   \<and> run_iter (map unat) 3 (ex_env [5, 6] [] (\<lambda>fd. if fd = 5 then Pending [] else Pending [104, 10]))
        ([(5, ex_client 5 [65, 84] 2), (6, ex_client 6 [] 0)], Serial_init 4)
      = Inr (([(6, ex_client 6 [] 0)], Serial_init 4), [SerialWrite [104, 10]])"
  using disconnect_discards_partial_line [where
      st = "([(5, ex_client 5 [65, 84] 2), (6, ex_client 6 [] 0)], Serial_init 4)" and srv = 3
      and e = "ex_env [5, 6] [] (\<lambda>fd. if fd = 5 then Pending [] else Pending [104, 10])"
      and k = 5 and c = "ex_client 5 [65, 84] 2" and decode = "map unat" and s = "Serial_init 4"]
  by (simp add: ex_defs)

text \<open>
  Claim C3 says that removing a client from the dictionary closes its socket at
  once. \<^verbatim>\<open>Client.close\<close> exists for that, but \<^verbatim>\<open>run\<close> never calls it: the
  removal is the \<^verbatim>\<open>del\<close> alone. Here the peer of the client with descriptor 5 has
  closed the connection. \<^verbatim>\<open>process_clients\<close> marks the client, the iteration
  completes with the client gone from the dictionary, and the socket of the
  removed client is as open as before; a call of \<^verbatim>\<open>Client.close\<close> would have
  closed it.
\<close>

theorem removal_leaves_socket_open:
  "process_clients (ex_env [5] [] (\<lambda>fd. Pending [])) [ex_client 5 [65, 84] 2] (Serial_init 4)
     = Inr ([ex_client 5 [65, 84] 2], [ex_client 5 [65, 84] 2], [])
   \<and> run_iter (map unat) 3 (ex_env [5] [] (\<lambda>fd. Pending []))
       ([(5, ex_client 5 [65, 84] 2)], Serial_init 4) = Inr (([], Serial_init 4), [])
   \<and> \<not> sock_closed (Client_sock (ex_client 5 [65, 84] 2))
   \<and> sock_closed (Client_sock (Client_close (ex_client 5 [65, 84] 2)))"
  by (simp add: ex_defs Client_close_def socket_close_def)

text \<open>
  Claim C4 says that removing an identifier that is no longer in the dictionary
  is a no-op. The removal is \<^verbatim>\<open>del clients[...]\<close>, which raises: after the
  client with descriptor 5 has been removed, removing descriptor 5 again gives
  \<^verbatim>\<open>KeyError\<close>.
\<close>

theorem remove_twice_raises:
  "dict_del [(5, ex_client 5 [] 0)] 5 = Inr [] \<and> dict_del [] 5 = Inl KeyError"
  by (simp add: dict_del_def)

text \<open>
  Claim C4, as the code has it. Removing an identifier that is not a key raises
  \<^verbatim>\<open>KeyError\<close>. Removing one that is a key deletes exactly the entry under
  it; the identifier is then no key any more and removing it a second time
  raises. The removal loop of \<^verbatim>\<open>run\<close> completes, deleting exactly the entries
  of the listed clients, when their descriptors are different keys of the
  dictionary, which is how \<^verbatim>\<open>run\<close> calls it.
\<close>

theorem registry_remove:
  "(k \<notin> set (dict_keys d) \<longrightarrow> dict_del d k = Inl KeyError)
   \<and> (\<forall>d'. dict_del d k = Inr d' \<longrightarrow>
          d' = filter (\<lambda>kv. fst kv \<noteq> k) d \<and> k \<in> set (dict_keys d)
          \<and> k \<notin> set (dict_keys d') \<and> dict_del d' k = Inl KeyError)
   \<and> (distinct (map Client_fileno R) \<and> set (map Client_fileno R) \<subseteq> set (dict_keys d) \<longrightarrow>
        remove_each R d = Inr (filter (\<lambda>kv. fst kv \<notin> set (map Client_fileno R)) d))"
proof -
  have 1: "k \<notin> set (dict_keys d) \<longrightarrow> dict_del d k = Inl KeyError"
    by (simp add: dict_del_def dict_keys_def)
  have 2: "\<forall>d'. dict_del d k = Inr d' \<longrightarrow>
          d' = filter (\<lambda>kv. fst kv \<noteq> k) d \<and> k \<in> set (dict_keys d)
          \<and> k \<notin> set (dict_keys d') \<and> dict_del d' k = Inl KeyError"
    by (auto simp: dict_del_def dict_keys_def split: if_splits)
  have 3: "distinct (map Client_fileno R) \<and> set (map Client_fileno R) \<subseteq> set (dict_keys d) \<longrightarrow>
        remove_each R d = Inr (filter (\<lambda>kv. fst kv \<notin> set (map Client_fileno R)) d)"
    using remove_each_ok[of R d] by (simp add: dict_keys_def)
  show ?thesis using 1 2 3 by blast
qed

theorem registry_remove_witness:
  "7 \<notin> set (dict_keys [(5, ex_client 5 [] 0), (6, ex_client 6 [] 0)])
   \<and> dict_del [(5, ex_client 5 [] 0), (6, ex_client 6 [] 0)] 7 = Inl KeyError
   \<and> dict_del [(5, ex_client 5 [] 0), (6, ex_client 6 [] 0)] 5 = Inr [(6, ex_client 6 [] 0)]
   \<and> dict_del [(6, ex_client 6 [] 0)] 5 = Inl KeyError
   \<and> distinct (map Client_fileno [ex_client 6 [] 0])
   \<and> set (map Client_fileno [ex_client 6 [] 0])
        \<subseteq> set (dict_keys [(5, ex_client 5 [] 0), (6, ex_client 6 [] 0)])
   \<and> remove_each [ex_client 6 [] 0] [(5, ex_client 5 [] 0), (6, ex_client 6 [] 0)]
        = Inr [(5, ex_client 5 [] 0)]"
  using registry_remove [of 7 "[(5, ex_client 5 [] 0), (6, ex_client 6 [] 0)]" "[ex_client 6 [] 0]"]
    registry_remove [of 5 "[(5, ex_client 5 [] 0), (6, ex_client 6 [] 0)]" "[ex_client 6 [] 0]"]
  by (simp add: ex_defs)

end
